theory Spec2Isabelle
  imports Main
begin

section \<open>Data model of the signaling server (server.js)\<close>

text \<open>
  A connected client is a socket.io socket object. The server reads one field of it, the
  identifier \<open>socket.id\<close>, and calls \<open>emit\<close> on it. Two socket objects never share an
  identifier, so the model of a socket is its identifier.
\<close>

datatype socket = Socket (id': string)

text \<open>
  Values that travel in event payloads. Numbers are carried, never computed with; the only
  number the server produces itself is the millisecond clock reading \<open>Date.now()\<close>.
\<close>

datatype jsval =
    JUndefined
  | JNull
  | JBool bool
  | JNumber int
  | JString string
  | JArray "jsval list"
  | JObject "(string \<times> jsval) list"

datatype error = TypeError

text \<open>
  An outbound emit call: \<open>sock.emit(name, args)\<close> goes to one socket object,
  \<open>io.to(room).emit(name, args)\<close> to the room of that name. The server never joins a
  socket to a room, so the room named by an identifier holds the connected socket of that
  identifier and nothing else.
\<close>

datatype target = ToSocket socket | ToRoom string

type_synonym emission = "target \<times> string \<times> jsval list"

text \<open>
  \<open>io.sockets.sockets\<close>, the table of connected sockets kept by socket.io. The server
  reads it and never writes it, so the handlers take it as a parameter.
\<close>

type_synonym registry = "string \<rightharpoonup> socket"

text \<open>The two module-level variables of server.js.\<close>

record state =
  waitingQueue :: "socket list"
  activePairs :: "string \<rightharpoonup> string"

definition init :: state where
  "init = \<lparr>waitingQueue = [], activePairs = Map.empty\<rparr>"

section \<open>Helper functions\<close>

text \<open>
  Lines 49-50: \<open>activePairs.set(user1.id, user2.id); activePairs.set(user2.id, user1.id)\<close>.
\<close>

definition insert_pair :: "(string \<rightharpoonup> string) \<Rightarrow> string \<Rightarrow> string \<Rightarrow> (string \<rightharpoonup> string)" where
  "insert_pair m a b = (m(a \<mapsto> b))(b \<mapsto> a)"

text \<open>
  Lines 68-69 and 78-79: \<open>has\<close>, \<open>get\<close> and the two \<open>delete\<close> calls of removeUser. The
  partner read by \<open>get\<close> is returned with the table.
\<close>

definition remove_pair :: "(string \<rightharpoonup> string) \<Rightarrow> string \<Rightarrow> string option \<times> (string \<rightharpoonup> string)" where
  "remove_pair m socketId =
     (case m socketId of
        None \<Rightarrow> (None, m)
      | Some partnerId \<Rightarrow> (Some partnerId, (m(socketId := None))(partnerId := None)))"

text \<open>
  pairUsers, lines 43-58. The loop runs while the queue holds at least two sockets, which
  is when both \<open>shift\<close> calls return a socket.
\<close>

function pairUsers :: "state \<Rightarrow> state \<times> emission list" where
  "pairUsers s =
     (case waitingQueue s of
        user1 # user2 # rest \<Rightarrow>
          (let s1 = s\<lparr>waitingQueue := rest,
                      activePairs := insert_pair (activePairs s) (id' user1) (id' user2)\<rparr>;
               out1 = [(ToSocket user1, ''paired'', [JObject [(''partnerId'', JString (id' user2))]]),
                       (ToSocket user2, ''paired'', [JObject [(''partnerId'', JString (id' user1))]])];
               r = pairUsers s1
           in (fst r, out1 @ snd r))
      | _ \<Rightarrow> (s, []))"
  by pat_completeness auto
termination
  by (relation "measure (\<lambda>s. length (waitingQueue s))") auto

declare pairUsers.simps [simp del]

text \<open>removeUser, lines 63-83.\<close>

definition removeUser :: "registry \<Rightarrow> state \<Rightarrow> string \<Rightarrow> state \<times> emission list" where
  "removeUser io s socketId =
     (let q = filter (\<lambda>user. id' user \<noteq> socketId) (waitingQueue s) in
      case remove_pair (activePairs s) socketId of
        (None, m) \<Rightarrow> (s\<lparr>waitingQueue := q\<rparr>, [])
      | (Some partnerId, m) \<Rightarrow>
          (s\<lparr>waitingQueue := q, activePairs := m\<rparr>,
           (case io partnerId of
              Some partnerSocket \<Rightarrow> [(ToSocket partnerSocket, ''partner-disconnected'', [])]
            | None \<Rightarrow> [])))"

section \<open>Event handlers\<close>

text \<open>
  \<open>data.field\<close>: a TypeError on \<open>undefined\<close> and \<open>null\<close>, the property of an object,
  and \<open>undefined\<close> where the value has no such property. The four names the server reads
  (offer, answer, candidate, message) are properties of no primitive value or array.
\<close>

definition prop_value :: "jsval \<Rightarrow> string \<Rightarrow> jsval" where
  "prop_value d k =
     (case d of
        JObject kvs \<Rightarrow> (case map_of kvs k of Some v \<Rightarrow> v | None \<Rightarrow> JUndefined)
      | _ \<Rightarrow> JUndefined)"

definition get_prop :: "jsval \<Rightarrow> string \<Rightarrow> error + jsval" where
  "get_prop d k = (if d = JUndefined \<or> d = JNull then Inl TypeError else Inr (prop_value d k))"

text \<open>
  \<open>if (partnerId)\<close>: \<open>Map.get\<close> gives \<open>undefined\<close> for a missing key, and of the strings
  only the empty one is falsy.
\<close>

definition truthy :: "string option \<Rightarrow> bool" where
  "truthy p = (case p of None \<Rightarrow> False | Some x \<Rightarrow> x \<noteq> [])"

type_synonym outcome = "state \<times> emission list \<times> error option"

text \<open>
  The three signaling handlers, lines 114-147, differ in the event name and the field
  they copy: (offer, offer), (answer, answer), (ice-candidate, candidate).
\<close>

definition relay :: "string \<Rightarrow> string \<Rightarrow> state \<Rightarrow> socket \<Rightarrow> jsval \<Rightarrow> outcome" where
  "relay name field s sock d =
     (let partnerId = activePairs s (id' sock) in
      if truthy partnerId then
        (case get_prop d field of
           Inl e \<Rightarrow> (s, [], Some e)
         | Inr v \<Rightarrow>
             (s, [(ToRoom (the partnerId), name,
                   [JObject [(field, v), (''from'', JString (id' sock))]])], None))
      else (s, [], None))"

definition offer_handler :: "state \<Rightarrow> socket \<Rightarrow> jsval \<Rightarrow> outcome" where
  "offer_handler = relay ''offer'' ''offer''"

definition answer_handler :: "state \<Rightarrow> socket \<Rightarrow> jsval \<Rightarrow> outcome" where
  "answer_handler = relay ''answer'' ''answer''"

definition ice_candidate_handler :: "state \<Rightarrow> socket \<Rightarrow> jsval \<Rightarrow> outcome" where
  "ice_candidate_handler = relay ''ice-candidate'' ''candidate''"

text \<open>chat-message, lines 152-161; \<open>now\<close> is the reading of \<open>Date.now()\<close>.\<close>

definition chat_message_handler :: "state \<Rightarrow> socket \<Rightarrow> jsval \<Rightarrow> int \<Rightarrow> outcome" where
  "chat_message_handler s sock d now =
     (let partnerId = activePairs s (id' sock) in
      if truthy partnerId then
        (case get_prop d ''message'' of
           Inl e \<Rightarrow> (s, [], Some e)
         | Inr v \<Rightarrow>
             (s, [(ToRoom (the partnerId), ''chat-message'',
                   [JObject [(''message'', v), (''from'', JString ''Stranger''),
                             (''timestamp'', JNumber now)]])], None))
      else (s, [], None))"

text \<open>start-search, lines 95-107.\<close>

definition start_search_handler :: "registry \<Rightarrow> state \<Rightarrow> socket \<Rightarrow> outcome" where
  "start_search_handler io s sock =
     (let r1 = removeUser io s (id' sock);
          s2 = (fst r1)\<lparr>waitingQueue := waitingQueue (fst r1) @ [sock]\<rparr>;
          out2 = [(ToSocket sock, ''searching'', [])];
          r3 = pairUsers s2
      in (fst r3, snd r1 @ out2 @ snd r3, None))"

text \<open>next, lines 166-174.\<close>

definition next_handler :: "registry \<Rightarrow> state \<Rightarrow> socket \<Rightarrow> outcome" where
  "next_handler io s sock =
     (let r1 = removeUser io s (id' sock);
          s2 = (fst r1)\<lparr>waitingQueue := waitingQueue (fst r1) @ [sock]\<rparr>;
          out2 = [(ToSocket sock, ''searching'', [])];
          r3 = pairUsers s2
      in (fst r3, snd r1 @ out2 @ snd r3, None))"

text \<open>stop-search, lines 176-179, and disconnect, lines 184-187.\<close>

definition stop_search_handler :: "registry \<Rightarrow> state \<Rightarrow> socket \<Rightarrow> outcome" where
  "stop_search_handler io s sock =
     (let r = removeUser io s (id' sock) in (fst r, snd r, None))"

definition disconnect_handler :: "registry \<Rightarrow> state \<Rightarrow> socket \<Rightarrow> outcome" where
  "disconnect_handler io s sock =
     (let r = removeUser io s (id' sock) in (fst r, snd r, None))"

section \<open>Runs of the server\<close>

text \<open>
  One operation on the state: a call of a helper function or the handling of one inbound
  event of one socket. The connection event only logs and installs the handlers.
\<close>

datatype operation =
    PairUsers
  | RemoveUser string
  | Connection socket
  | StartSearch socket
  | Offer socket jsval
  | Answer socket jsval
  | IceCandidate socket jsval
  | ChatMessage socket jsval int
  | Next socket
  | StopSearch socket
  | Disconnect socket

fun perform :: "registry \<Rightarrow> state \<Rightarrow> operation \<Rightarrow> outcome" where
  "perform io s PairUsers = (let r = pairUsers s in (fst r, snd r, None))"
| "perform io s (RemoveUser socketId) = (let r = removeUser io s socketId in (fst r, snd r, None))"
| "perform io s (Connection sock) = (s, [], None)"
| "perform io s (StartSearch sock) = start_search_handler io s sock"
| "perform io s (Offer sock d) = offer_handler s sock d"
| "perform io s (Answer sock d) = answer_handler s sock d"
| "perform io s (IceCandidate sock d) = ice_candidate_handler s sock d"
| "perform io s (ChatMessage sock d now) = chat_message_handler s sock d now"
| "perform io s (Next sock) = next_handler io s sock"
| "perform io s (StopSearch sock) = stop_search_handler io s sock"
| "perform io s (Disconnect sock) = disconnect_handler io s sock"

text \<open>
  A run: each operation comes with the table of connected sockets at the moment it is
  handled; handlers run to completion one after the other.
\<close>

fun run :: "state \<Rightarrow> (registry \<times> operation) list \<Rightarrow> state" where
  "run s [] = s"
| "run s ((io, opn) # rest) = run (fst (perform io s opn)) rest"

section \<open>Notions used in the statements\<close>

text \<open>
  The sockets of a queue taken two at a time from the head, oldest first; a socket left
  over at the end belongs to no pair.
\<close>

fun fifo_pairs :: "'a list \<Rightarrow> ('a \<times> 'a) list" where
  "fifo_pairs (x # y # rest) = (x, y) # fifo_pairs rest"
| "fifo_pairs _ = []"

text \<open>The two \<open>paired\<close> events of one loop iteration, and its two table entries.\<close>

definition paired_events :: "socket \<times> socket \<Rightarrow> emission list" where
  "paired_events p =
     [(ToSocket (fst p), ''paired'', [JObject [(''partnerId'', JString (id' (snd p)))]]),
      (ToSocket (snd p), ''paired'', [JObject [(''partnerId'', JString (id' (fst p)))]])]"

definition insert_sockets :: "(string \<rightharpoonup> string) \<Rightarrow> socket \<times> socket \<Rightarrow> (string \<rightharpoonup> string)" where
  "insert_sockets m p = insert_pair m (id' (fst p)) (id' (snd p))"

definition queue_ids :: "state \<Rightarrow> string list" where
  "queue_ids s = map id' (waitingQueue s)"

text \<open>A table in which every entry has its mirror entry and nobody is their own partner.\<close>

definition symmetric_table :: "(string \<rightharpoonup> string) \<Rightarrow> bool" where
  "symmetric_table m = (\<forall>a b. m a = Some b \<longrightarrow> m b = Some a \<and> a \<noteq> b)"

text \<open>
  The invariant of the two variables: no identifier waits twice, none waits while paired,
  the table is symmetric, and its size (\<open>activePairs.size\<close>) is finite and even.
\<close>

definition consistent :: "state \<Rightarrow> bool" where
  "consistent s =
     (distinct (queue_ids s)
      \<and> set (queue_ids s) \<inter> dom (activePairs s) = {}
      \<and> symmetric_table (activePairs s)
      \<and> finite (dom (activePairs s))
      \<and> even (card (dom (activePairs s))))"

text \<open>
  socket.io draws every identifier as a non-empty string. A state is named when every
  waiting socket and every partner in the table has such an identifier; an operation is
  named when the socket it comes from has one.
\<close>

definition named :: "state \<Rightarrow> bool" where
  "named s =
     ((\<forall>k \<in> set (waitingQueue s). id' k \<noteq> [])
      \<and> (\<forall>a b. activePairs s a = Some b \<longrightarrow> b \<noteq> []))"

fun named_op :: "operation \<Rightarrow> bool" where
  "named_op (StartSearch sock) = (id' sock \<noteq> [])"
| "named_op (Next sock) = (id' sock \<noteq> [])"
| "named_op _ = True"

section \<open>The pairing loop\<close>

lemma length_fifo_pairs: "length (fifo_pairs q) = length q div 2"
  by (induction q rule: fifo_pairs.induct) simp_all

lemma nth_fifo_pairs:
  "i < length q div 2 \<Longrightarrow> fifo_pairs q ! i = (q ! (2 * i), q ! (2 * i + 1))"
proof (induction q arbitrary: i rule: fifo_pairs.induct)
  case (1 x y rest)
  then show ?case by (cases i) simp_all
qed simp_all

lemma fifo_pairs_upt:
  "fifo_pairs q = map (\<lambda>i. (q ! (2 * i), q ! (2 * i + 1))) [0..<length q div 2]"
  by (rule nth_equalityI) (simp_all add: length_fifo_pairs nth_fifo_pairs)

lemma pairUsers_fifo_pairs:
  "pairUsers s =
     (s\<lparr>waitingQueue := drop (2 * length (fifo_pairs (waitingQueue s))) (waitingQueue s),
        activePairs := foldl insert_sockets (activePairs s) (fifo_pairs (waitingQueue s))\<rparr>,
      concat (map paired_events (fifo_pairs (waitingQueue s))))"
proof (induction s rule: pairUsers.induct)
  case (1 s)
  show ?case
  proof (cases "waitingQueue s")
    case Nil
    then show ?thesis by (simp add: pairUsers.simps [of s])
  next
    case (Cons user1 q1)
    note q = this
    show ?thesis
    proof (cases q1)
      case Nil
      with q show ?thesis by (simp add: pairUsers.simps [of s])
    next
      case (Cons user2 rest)
      with q have shape: "waitingQueue s = user1 # user2 # rest" by simp
      from "1.IH" [OF shape refl refl refl] shape
      show ?thesis
        by (simp add: pairUsers.simps [of s] Let_def insert_sockets_def paired_events_def)
    qed
  qed
qed

lemma drop_even_all: "even (length q) \<Longrightarrow> drop (2 * (length q div 2)) q = []"
  by simp

lemma drop_odd_last: "odd (length q) \<Longrightarrow> drop (2 * (length q div 2)) q = [last q]"
proof -
  assume o: "odd (length q)"
  then have "q \<noteq> []" by auto
  moreover from o have "2 * (length q div 2) = length q - 1"
    by presburger
  ultimately show ?thesis
    by (metis append_butlast_last_id append_eq_conv_conj length_butlast)
qed

lemma foldl_insert_sockets_other:
  "k \<notin> id' ` set q \<Longrightarrow> foldl insert_sockets m (fifo_pairs q) k = m k"
  by (induction q arbitrary: m rule: fifo_pairs.induct)
    (simp_all add: insert_sockets_def insert_pair_def)

lemma foldl_insert_sockets_nth:
  "distinct (map id' q) \<Longrightarrow> i < length q div 2 \<Longrightarrow>
     foldl insert_sockets m (fifo_pairs q) (id' (q ! (2 * i))) = Some (id' (q ! (2 * i + 1)))
     \<and> foldl insert_sockets m (fifo_pairs q) (id' (q ! (2 * i + 1))) = Some (id' (q ! (2 * i)))"
proof (induction q arbitrary: m i rule: fifo_pairs.induct)
  case (1 x y rest)
  show ?case
  proof (cases i)
    case 0
    from "1.prems"(1) have nx: "id' x \<notin> id' ` set rest" and ny: "id' y \<notin> id' ` set rest"
      and ne: "id' x \<noteq> id' y"
      by auto
    have "foldl insert_sockets (insert_sockets m (x, y)) (fifo_pairs rest) (id' x)
        = insert_sockets m (x, y) (id' x)"
      by (rule foldl_insert_sockets_other [OF nx])
    moreover have "foldl insert_sockets (insert_sockets m (x, y)) (fifo_pairs rest) (id' y)
        = insert_sockets m (x, y) (id' y)"
      by (rule foldl_insert_sockets_other [OF ny])
    moreover have "insert_sockets m (x, y) (id' x) = Some (id' y)"
      "insert_sockets m (x, y) (id' y) = Some (id' x)"
      using ne by (simp_all add: insert_sockets_def insert_pair_def)
    ultimately show ?thesis using 0 by simp
  next
    case (Suc j)
    with "1.prems" have "distinct (map id' rest)" "j < length rest div 2" by simp_all
    from "1.IH" [OF this] Suc show ?thesis by simp
  qed
qed simp_all

section \<open>The invariant\<close>

lemma consistent_init: "consistent init"
  by (simp add: consistent_def init_def queue_ids_def symmetric_table_def)

lemma symmetric_tableD:
  "symmetric_table m \<Longrightarrow> m a = Some b \<Longrightarrow> m b = Some a"
  unfolding symmetric_table_def by blast

lemma symmetric_table_neq:
  "symmetric_table m \<Longrightarrow> m a = Some b \<Longrightarrow> a \<noteq> b"
  unfolding symmetric_table_def by blast

lemma symmetric_insert_pair:
  assumes "symmetric_table m" "a \<notin> dom m" "b \<notin> dom m" "a \<noteq> b"
  shows "symmetric_table (insert_pair m a b)"
  unfolding symmetric_table_def insert_pair_def
proof (intro allI impI)
  fix x y
  assume h: "(m(a \<mapsto> b, b \<mapsto> a)) x = Some y"
  show "(m(a \<mapsto> b, b \<mapsto> a)) y = Some x \<and> x \<noteq> y"
  proof (cases "x = a \<or> x = b")
    case True
    with h assms(4) show ?thesis by (auto split: if_splits)
  next
    case False
    with h have mx: "m x = Some y" by simp
    have my: "m y = Some x" by (rule symmetric_tableD [OF assms(1) mx])
    have xy: "x \<noteq> y" by (rule symmetric_table_neq [OF assms(1) mx])
    from my assms(2,3) have "y \<noteq> a" "y \<noteq> b" by auto
    with my xy show ?thesis by simp
  qed
qed

lemma card_dom_insert_pair:
  assumes "finite (dom m)" "a \<notin> dom m" "b \<notin> dom m" "a \<noteq> b"
  shows "card (dom (insert_pair m a b)) = card (dom m) + 2"
  using assms by (simp add: insert_pair_def)

lemma symmetric_delete_pair:
  assumes "symmetric_table m" "m a = Some b"
  shows "symmetric_table ((m(a := None))(b := None))"
  unfolding symmetric_table_def
proof (intro allI impI)
  fix x y
  assume h: "((m(a := None))(b := None)) x = Some y"
  then have xa: "x \<noteq> a" and xb: "x \<noteq> b" and mx: "m x = Some y"
    by (auto split: if_splits)
  have mb: "m b = Some a" by (rule symmetric_tableD [OF assms])
  have my: "m y = Some x" by (rule symmetric_tableD [OF assms(1) mx])
  have xy: "x \<noteq> y" by (rule symmetric_table_neq [OF assms(1) mx])
  have "y \<noteq> a" using my assms(2) xb by auto
  moreover have "y \<noteq> b" using my mb xa by auto
  ultimately show "((m(a := None))(b := None)) y = Some x \<and> x \<noteq> y"
    using my xy by simp
qed

lemma card_dom_delete_pair:
  assumes "symmetric_table m" "finite (dom m)" "m a = Some b"
  shows "card (dom ((m(a := None))(b := None))) + 2 = card (dom m)"
proof -
  have ab: "a \<noteq> b" by (rule symmetric_table_neq [OF assms(1,3)])
  have b: "m b = Some a" by (rule symmetric_tableD [OF assms(1,3)])
  have d: "dom ((m(a := None))(b := None)) = dom m - {a} - {b}" by auto
  have ina: "a \<in> dom m" using assms(3) by auto
  have inb: "b \<in> dom m - {a}" using b ab by auto
  have "card (dom m - {a}) + 1 = card (dom m)"
    using assms(2) ina by (metis Suc_eq_plus1 card_Suc_Diff1)
  moreover have "card (dom m - {a} - {b}) + 1 = card (dom m - {a})"
    using assms(2) inb by (metis Suc_eq_plus1 card_Suc_Diff1 finite_Diff)
  ultimately show ?thesis using d by simp
qed

lemma removeUser_queue:
  "waitingQueue (fst (removeUser io s i)) = filter (\<lambda>user. id' user \<noteq> i) (waitingQueue s)"
  by (simp add: removeUser_def remove_pair_def split: option.splits)

lemma removeUser_table:
  "activePairs (fst (removeUser io s i)) = snd (remove_pair (activePairs s) i)"
  by (simp add: removeUser_def remove_pair_def split: option.splits)

lemma queue_ids_filter:
  "map id' (filter (\<lambda>user. id' user \<noteq> i) q) = filter (\<lambda>x. x \<noteq> i) (map id' q)"
  by (induction q) simp_all

lemma consistent_removeUser:
  assumes "consistent s"
  shows "consistent (fst (removeUser io s i))"
proof (cases "activePairs s i")
  case None
  with assms show ?thesis
    by (auto simp: consistent_def queue_ids_def removeUser_queue removeUser_table
        remove_pair_def queue_ids_filter)
next
  case (Some p)
  from assms have sym: "symmetric_table (activePairs s)" and fin: "finite (dom (activePairs s))"
    and ev: "even (card (dom (activePairs s)))"
    and dis: "distinct (queue_ids s)" and sep: "set (queue_ids s) \<inter> dom (activePairs s) = {}"
    by (simp_all add: consistent_def)
  let ?m = "((activePairs s)(i := None))(p := None)"
  have tab: "activePairs (fst (removeUser io s i)) = ?m"
    by (simp add: removeUser_table remove_pair_def Some)
  have "symmetric_table ?m" by (rule symmetric_delete_pair [OF sym Some])
  moreover have "finite (dom ?m)" using fin by simp
  moreover have "even (card (dom ?m))"
  proof -
    have "even (card (dom ?m) + 2)"
      using card_dom_delete_pair [OF sym fin Some] ev by simp
    then show ?thesis by simp
  qed
  moreover have "distinct (queue_ids (fst (removeUser io s i)))"
    using dis by (simp add: queue_ids_def removeUser_queue queue_ids_filter)
  moreover have "set (queue_ids (fst (removeUser io s i))) \<inter> dom ?m = {}"
    using sep by (auto simp: queue_ids_def removeUser_queue queue_ids_filter)
  ultimately show ?thesis by (simp add: consistent_def tab)
qed

lemma removeUser_forgets:
  "i \<notin> set (queue_ids (fst (removeUser io s i)))"
  "i \<notin> dom (activePairs (fst (removeUser io s i)))"
  by (auto simp: queue_ids_def removeUser_queue removeUser_table remove_pair_def
      split: option.splits)

lemma consistent_push:
  assumes "consistent s" "id' sock \<notin> set (queue_ids s)" "id' sock \<notin> dom (activePairs s)"
  shows "consistent (s\<lparr>waitingQueue := waitingQueue s @ [sock]\<rparr>)"
  using assms by (auto simp: consistent_def queue_ids_def)

lemma consistent_pair_step:
  assumes "consistent s" "waitingQueue s = user1 # user2 # rest"
  shows "consistent (s\<lparr>waitingQueue := rest,
            activePairs := insert_pair (activePairs s) (id' user1) (id' user2)\<rparr>)"
proof -
  from assms have sym: "symmetric_table (activePairs s)" and fin: "finite (dom (activePairs s))"
    and ev: "even (card (dom (activePairs s)))"
    and n1: "id' user1 \<notin> dom (activePairs s)" and n2: "id' user2 \<notin> dom (activePairs s)"
    and ne: "id' user1 \<noteq> id' user2"
    and dis: "distinct (map id' rest)"
    and r1: "id' user1 \<notin> id' ` set rest" and r2: "id' user2 \<notin> id' ` set rest"
    and sep: "id' ` set rest \<inter> dom (activePairs s) = {}"
    by (auto simp: consistent_def queue_ids_def)
  let ?m = "insert_pair (activePairs s) (id' user1) (id' user2)"
  have "symmetric_table ?m" by (rule symmetric_insert_pair [OF sym n1 n2 ne])
  moreover have "finite (dom ?m)" using fin by (simp add: insert_pair_def)
  moreover have "even (card (dom ?m))"
    using card_dom_insert_pair [OF fin n1 n2 ne] ev by simp
  moreover have "id' ` set rest \<inter> dom ?m = {}"
    using sep r1 r2 by (auto simp: insert_pair_def)
  ultimately show ?thesis using dis by (simp add: consistent_def queue_ids_def)
qed

lemma consistent_pairUsers:
  "consistent s \<Longrightarrow> consistent (fst (pairUsers s))"
proof (induction s rule: pairUsers.induct)
  case (1 s)
  show ?case
  proof (cases "waitingQueue s")
    case Nil
    with "1.prems" show ?thesis by (simp add: pairUsers.simps [of s])
  next
    case (Cons user1 q1)
    note q = this
    show ?thesis
    proof (cases q1)
      case Nil
      with q "1.prems" show ?thesis by (simp add: pairUsers.simps [of s])
    next
      case (Cons user2 rest)
      with q have shape: "waitingQueue s = user1 # user2 # rest" by simp
      from "1.IH" [OF shape refl refl refl consistent_pair_step [OF "1.prems" shape]] shape
      show ?thesis by (simp add: pairUsers.simps [of s] Let_def)
    qed
  qed
qed

lemma consistent_search:
  assumes "consistent s"
  shows "consistent (fst (start_search_handler io s sock))"
proof -
  let ?s1 = "fst (removeUser io s (id' sock))"
  have "consistent ?s1" by (rule consistent_removeUser [OF assms])
  then have "consistent (?s1\<lparr>waitingQueue := waitingQueue ?s1 @ [sock]\<rparr>)"
    by (rule consistent_push) (rule removeUser_forgets)+
  then show ?thesis
    by (simp add: start_search_handler_def Let_def consistent_pairUsers)
qed

lemma relay_state: "fst (relay name field s sock d) = s"
  by (simp add: relay_def Let_def split: sum.splits)

lemma chat_state: "fst (chat_message_handler s sock d now) = s"
  by (simp add: chat_message_handler_def Let_def split: sum.splits)

lemma next_is_start_search: "next_handler = start_search_handler"
  by (intro ext) (simp add: next_handler_def start_search_handler_def)

lemma consistent_perform:
  "consistent s \<Longrightarrow> consistent (fst (perform io s opn))"
  by (cases opn)
    (simp_all add: consistent_pairUsers consistent_removeUser consistent_search
      next_is_start_search offer_handler_def answer_handler_def ice_candidate_handler_def
      relay_state chat_state stop_search_handler_def disconnect_handler_def Let_def)

lemma consistent_run:
  "consistent s \<Longrightarrow> consistent (run s ops)"
  by (induction s ops rule: run.induct) (simp_all add: consistent_perform)

section \<open>Identifiers in the table\<close>

lemma named_init: "named init"
  by (simp add: named_def init_def)

lemma named_removeUser: "named s \<Longrightarrow> named (fst (removeUser io s i))"
  unfolding named_def
  by (auto simp: removeUser_queue removeUser_table remove_pair_def split: option.splits if_splits)

lemma named_pair_step:
  assumes "named s" "waitingQueue s = user1 # user2 # rest"
  shows "named (s\<lparr>waitingQueue := rest,
            activePairs := insert_pair (activePairs s) (id' user1) (id' user2)\<rparr>)"
  using assms unfolding named_def insert_pair_def
  by (auto split: if_splits)

lemma named_pairUsers: "named s \<Longrightarrow> named (fst (pairUsers s))"
proof (induction s rule: pairUsers.induct)
  case (1 s)
  show ?case
  proof (cases "waitingQueue s")
    case Nil
    with "1.prems" show ?thesis by (simp add: pairUsers.simps [of s])
  next
    case (Cons user1 q1)
    note q = this
    show ?thesis
    proof (cases q1)
      case Nil
      with q "1.prems" show ?thesis by (simp add: pairUsers.simps [of s])
    next
      case (Cons user2 rest)
      with q have shape: "waitingQueue s = user1 # user2 # rest" by simp
      from "1.IH" [OF shape refl refl refl named_pair_step [OF "1.prems" shape]] shape
      show ?thesis by (simp add: pairUsers.simps [of s] Let_def)
    qed
  qed
qed

lemma named_search:
  assumes "named s" "id' sock \<noteq> []"
  shows "named (fst (start_search_handler io s sock))"
proof -
  let ?s1 = "fst (removeUser io s (id' sock))"
  have "named ?s1" by (rule named_removeUser [OF assms(1)])
  with assms(2) have "named (?s1\<lparr>waitingQueue := waitingQueue ?s1 @ [sock]\<rparr>)"
    by (auto simp: named_def)
  then show ?thesis
    by (simp add: start_search_handler_def Let_def named_pairUsers)
qed

lemma named_perform:
  "named s \<Longrightarrow> named_op opn \<Longrightarrow> named (fst (perform io s opn))"
  by (cases opn)
    (simp_all add: named_pairUsers named_removeUser named_search
      next_is_start_search offer_handler_def answer_handler_def ice_candidate_handler_def
      relay_state chat_state stop_search_handler_def disconnect_handler_def Let_def)

lemma named_run:
  "named s \<Longrightarrow> list_all (\<lambda>x. named_op (snd x)) ops \<Longrightarrow> named (run s ops)"
  by (induction s ops rule: run.induct) (simp_all add: named_perform)

lemma run_partner_named:
  assumes "list_all (\<lambda>x. named_op (snd x)) ops" "activePairs (run init ops) a = Some b"
  shows "b \<noteq> []"
  using named_run [OF named_init assms(1)] assms(2) unfolding named_def by blast

section \<open>The claims\<close>

text \<open>
  C1. One call of pairUsers, from any state: the queue that remains is the old queue
  without its first \<open>2 * (n div 2)\<close> sockets, so it is empty when the length \<open>n\<close> was even
  and holds only the last socket when \<open>n\<close> was odd. The sockets at positions \<open>2i\<close> and
  \<open>2i + 1\<close> are paired, in that order from the head: the table receives both directions for
  each such pair, each of the two gets one \<open>paired\<close> event naming the other, and where the
  waiting identifiers are pairwise distinct the table maps each of the two to the other on
  return.
\<close>

theorem pairUsers_drains_fifo:
  "waitingQueue (fst (pairUsers s))
     = drop (2 * (length (waitingQueue s) div 2)) (waitingQueue s)
   \<and> (even (length (waitingQueue s)) \<longrightarrow> waitingQueue (fst (pairUsers s)) = [])
   \<and> (odd (length (waitingQueue s)) \<longrightarrow>
        waitingQueue (fst (pairUsers s)) = [last (waitingQueue s)])
   \<and> activePairs (fst (pairUsers s))
     = foldl (\<lambda>m i. insert_pair m (id' (waitingQueue s ! (2 * i)))
                                    (id' (waitingQueue s ! (2 * i + 1))))
         (activePairs s) [0..<length (waitingQueue s) div 2]
   \<and> (distinct (map id' (waitingQueue s)) \<longrightarrow>
        (\<forall>i < length (waitingQueue s) div 2.
           activePairs (fst (pairUsers s)) (id' (waitingQueue s ! (2 * i)))
             = Some (id' (waitingQueue s ! (2 * i + 1)))
           \<and> activePairs (fst (pairUsers s)) (id' (waitingQueue s ! (2 * i + 1)))
             = Some (id' (waitingQueue s ! (2 * i)))))
   \<and> snd (pairUsers s)
     = concat (map (\<lambda>i.
         [(ToSocket (waitingQueue s ! (2 * i)), ''paired'',
             [JObject [(''partnerId'', JString (id' (waitingQueue s ! (2 * i + 1))))]]),
          (ToSocket (waitingQueue s ! (2 * i + 1)), ''paired'',
             [JObject [(''partnerId'', JString (id' (waitingQueue s ! (2 * i))))]])])
         [0..<length (waitingQueue s) div 2])"
proof -
  let ?q = "waitingQueue s"
  have q': "waitingQueue (fst (pairUsers s)) = drop (2 * (length ?q div 2)) ?q"
    by (simp add: pairUsers_fifo_pairs length_fifo_pairs)
  have tab: "activePairs (fst (pairUsers s)) = foldl insert_sockets (activePairs s) (fifo_pairs ?q)"
    by (simp add: pairUsers_fifo_pairs)
  have "foldl insert_sockets (activePairs s) (fifo_pairs ?q)
      = foldl insert_sockets (activePairs s)
          (map (\<lambda>i. (?q ! (2 * i), ?q ! (2 * i + 1))) [0..<length ?q div 2])"
    using fifo_pairs_upt [of ?q] by simp
  also have "\<dots> = foldl (\<lambda>m i. insert_pair m (id' (?q ! (2 * i))) (id' (?q ! (2 * i + 1))))
         (activePairs s) [0..<length ?q div 2]"
    by (simp add: foldl_map insert_sockets_def)
  finally have tab_upt: "activePairs (fst (pairUsers s))
      = foldl (\<lambda>m i. insert_pair m (id' (?q ! (2 * i))) (id' (?q ! (2 * i + 1))))
         (activePairs s) [0..<length ?q div 2]"
    using tab by simp
  have "snd (pairUsers s) = concat (map paired_events (fifo_pairs ?q))"
    by (simp add: pairUsers_fifo_pairs)
  also have "\<dots> = concat (map paired_events
       (map (\<lambda>i. (?q ! (2 * i), ?q ! (2 * i + 1))) [0..<length ?q div 2]))"
    using fifo_pairs_upt [of ?q] by simp
  finally have out: "snd (pairUsers s)
     = concat (map (\<lambda>i.
         [(ToSocket (?q ! (2 * i)), ''paired'',
             [JObject [(''partnerId'', JString (id' (?q ! (2 * i + 1))))]]),
          (ToSocket (?q ! (2 * i + 1)), ''paired'',
             [JObject [(''partnerId'', JString (id' (?q ! (2 * i))))]])])
         [0..<length ?q div 2])"
    by (simp add: paired_events_def comp_def)
  have ev: "even (length ?q) \<longrightarrow> waitingQueue (fst (pairUsers s)) = []"
    using q' by simp
  have od: "odd (length ?q) \<longrightarrow> waitingQueue (fst (pairUsers s)) = [last ?q]"
    using drop_odd_last [of ?q] by (simp only: q') simp
  have look: "distinct (map id' ?q) \<longrightarrow>
        (\<forall>i < length ?q div 2.
           activePairs (fst (pairUsers s)) (id' (?q ! (2 * i))) = Some (id' (?q ! (2 * i + 1)))
           \<and> activePairs (fst (pairUsers s)) (id' (?q ! (2 * i + 1))) = Some (id' (?q ! (2 * i))))"
    using foldl_insert_sockets_nth [of ?q _ "activePairs s"] by (simp only: tab) blast
  show ?thesis
    by (intro conjI) (rule q' ev od tab_upt look out)+
qed

theorem pairUsers_drains_fifo_witness:
  "odd (length [Socket ''A'', Socket ''B'', Socket ''C''])
   \<and> distinct (map id' [Socket ''A'', Socket ''B'', Socket ''C''])
   \<and> waitingQueue (fst (pairUsers
        \<lparr>waitingQueue = [Socket ''A'', Socket ''B'', Socket ''C''], activePairs = Map.empty\<rparr>))
      = [Socket ''C'']
   \<and> activePairs (fst (pairUsers
        \<lparr>waitingQueue = [Socket ''A'', Socket ''B'', Socket ''C''], activePairs = Map.empty\<rparr>)) ''A''
      = Some ''B''
   \<and> activePairs (fst (pairUsers
        \<lparr>waitingQueue = [Socket ''A'', Socket ''B'', Socket ''C''], activePairs = Map.empty\<rparr>)) ''B''
      = Some ''A''
   \<and> snd (pairUsers
        \<lparr>waitingQueue = [Socket ''A'', Socket ''B'', Socket ''C''], activePairs = Map.empty\<rparr>)
      = [(ToSocket (Socket ''A''), ''paired'', [JObject [(''partnerId'', JString ''B'')]]),
         (ToSocket (Socket ''B''), ''paired'', [JObject [(''partnerId'', JString ''A'')]])]
   \<and> even (length [Socket ''A'', Socket ''B'', Socket ''C'', Socket ''D''])
   \<and> waitingQueue (fst (pairUsers
        \<lparr>waitingQueue = [Socket ''A'', Socket ''B'', Socket ''C'', Socket ''D''],
          activePairs = Map.empty\<rparr>)) = []"
  using pairUsers_drains_fifo
    [of "\<lparr>waitingQueue = [Socket ''A'', Socket ''B'', Socket ''C''], activePairs = Map.empty\<rparr>"]
    pairUsers_drains_fifo
    [of "\<lparr>waitingQueue = [Socket ''A'', Socket ''B'', Socket ''C'', Socket ''D''],
          activePairs = Map.empty\<rparr>"]
  by (simp add: insert_pair_def)

text \<open>
  C2. After any sequence of operations from the initial state (calls of pairUsers and
  removeUser and handled events, each with any table of connected sockets), the table is
  symmetric: with every entry from \<open>a\<close> to \<open>b\<close> it has the entry from \<open>b\<close> to \<open>a\<close>; and
  its size is finite and even.
\<close>

theorem activePairs_symmetric_even:
  "(\<forall>a b. activePairs (run init ops) a = Some b \<longrightarrow> activePairs (run init ops) b = Some a)
   \<and> finite (dom (activePairs (run init ops)))
   \<and> even (card (dom (activePairs (run init ops))))"
  using consistent_run [OF consistent_init, of ops]
  unfolding consistent_def symmetric_table_def by blast

theorem activePairs_symmetric_even_witness:
  "activePairs (run init
      [(Map.empty, StartSearch (Socket ''A'')),
       (Map.empty, StartSearch (Socket ''B'')),
       (Map.empty, StartSearch (Socket ''C''))]) ''A'' = Some ''B''
   \<and> activePairs (run init
      [(Map.empty, StartSearch (Socket ''A'')),
       (Map.empty, StartSearch (Socket ''B'')),
       (Map.empty, StartSearch (Socket ''C''))]) ''B'' = Some ''A''
   \<and> even (card (dom (activePairs (run init
      [(Map.empty, StartSearch (Socket ''A'')),
       (Map.empty, StartSearch (Socket ''B'')),
       (Map.empty, StartSearch (Socket ''C''))]))))"
proof -
  let ?ops = "[(Map.empty, StartSearch (Socket ''A'')),
       (Map.empty, StartSearch (Socket ''B'')),
       (Map.empty, StartSearch (Socket ''C''))]"
  have a: "activePairs (run init ?ops) ''A'' = Some ''B''"
    by (simp add: init_def start_search_handler_def removeUser_def remove_pair_def
        pairUsers.simps insert_pair_def)
  from activePairs_symmetric_even [of ?ops] a show ?thesis by blast
qed

text \<open>
  C3. After any sequence of operations from the initial state, no identifier occurs twice
  in the waiting queue and no identifier of a waiting socket is a key of the table: a
  session is idle, waiting once, or paired.
\<close>

theorem waiting_not_paired:
  "distinct (map id' (waitingQueue (run init ops)))
   \<and> id' ` set (waitingQueue (run init ops)) \<inter> dom (activePairs (run init ops)) = {}"
  using consistent_run [OF consistent_init, of ops]
  unfolding consistent_def queue_ids_def by simp

theorem waiting_not_paired_witness:
  "waitingQueue (run init
      [(Map.empty, StartSearch (Socket ''A'')),
       (Map.empty, StartSearch (Socket ''B'')),
       (Map.empty, StartSearch (Socket ''C''))]) = [Socket ''C'']
   \<and> activePairs (run init
      [(Map.empty, StartSearch (Socket ''A'')),
       (Map.empty, StartSearch (Socket ''B'')),
       (Map.empty, StartSearch (Socket ''C''))]) ''C'' = None"
proof -
  let ?ops = "[(Map.empty, StartSearch (Socket ''A'')),
       (Map.empty, StartSearch (Socket ''B'')),
       (Map.empty, StartSearch (Socket ''C''))]"
  have q: "waitingQueue (run init ?ops) = [Socket ''C'']"
    by (simp add: init_def start_search_handler_def removeUser_def remove_pair_def
        pairUsers.simps insert_pair_def)
  from waiting_not_paired [of ?ops] q show ?thesis by (auto simp: dom_def)
qed

text \<open>
  C4. In any state and for any identifier, a second call of removeUser right after the
  first returns the state the first call left and emits nothing, whatever sockets are
  connected at either call. Two calls in a row therefore end in the same state and send
  the same notifications as one.
\<close>

theorem removeUser_idempotent:
  "removeUser io2 (fst (removeUser io1 s socketId)) socketId
     = (fst (removeUser io1 s socketId), [])"
  by (cases "activePairs s socketId") (simp_all add: removeUser_def remove_pair_def)

theorem removeUser_idempotent_witness:
  "snd (removeUser (Map.empty(''B'' \<mapsto> Socket ''B''))
        \<lparr>waitingQueue = [Socket ''C''], activePairs = insert_pair Map.empty ''A'' ''B''\<rparr> ''A'')
     = [(ToSocket (Socket ''B''), ''partner-disconnected'', [])]
   \<and> removeUser (Map.empty(''B'' \<mapsto> Socket ''B''))
       (fst (removeUser (Map.empty(''B'' \<mapsto> Socket ''B''))
          \<lparr>waitingQueue = [Socket ''C''], activePairs = insert_pair Map.empty ''A'' ''B''\<rparr> ''A''))
       ''A''
     = (\<lparr>waitingQueue = [Socket ''C''], activePairs = Map.empty\<rparr>, [])"
  using removeUser_idempotent [of "Map.empty(''B'' \<mapsto> Socket ''B'')"
     "Map.empty(''B'' \<mapsto> Socket ''B'')"
     "\<lparr>waitingQueue = [Socket ''C''], activePairs = insert_pair Map.empty ''A'' ''B''\<rparr>" "''A''"]
  by (simp add: removeUser_def remove_pair_def insert_pair_def)

text \<open>
  C5. A sender whose table entry is the partner identifier \<open>partnerId\<close> sends a payload
  that has properties (any value but \<open>undefined\<close> and \<open>null\<close>). Each signaling handler
  then emits exactly one event, of the name of the inbound event, to the partner's
  identifier, carrying the payload's field and \<open>from\<close> set to the sender's identifier;
  the chat handler emits exactly one \<open>chat-message\<close> carrying the message, \<open>from\<close> set
  to the text Stranger, and the clock reading. No error is raised. The partner identifier
  is one socket.io has drawn, hence not the empty string (lemma \<open>run_partner_named\<close>
  above shows that no run of the server puts an empty one into the table).
\<close>

theorem relay_delivers_to_partner:
  assumes "activePairs s (id' sock) = Some partnerId"
    and "partnerId \<noteq> []"
    and "d \<noteq> JUndefined" and "d \<noteq> JNull"
  shows "offer_handler s sock d
      = (s, [(ToRoom partnerId, ''offer'',
               [JObject [(''offer'', prop_value d ''offer''),
                         (''from'', JString (id' sock))]])], None)
    \<and> answer_handler s sock d
      = (s, [(ToRoom partnerId, ''answer'',
               [JObject [(''answer'', prop_value d ''answer''),
                         (''from'', JString (id' sock))]])], None)
    \<and> ice_candidate_handler s sock d
      = (s, [(ToRoom partnerId, ''ice-candidate'',
               [JObject [(''candidate'', prop_value d ''candidate''),
                         (''from'', JString (id' sock))]])], None)
    \<and> chat_message_handler s sock d now
      = (s, [(ToRoom partnerId, ''chat-message'',
               [JObject [(''message'', prop_value d ''message''),
                         (''from'', JString ''Stranger''),
                         (''timestamp'', JNumber now)]])], None)"
  using assms
  by (simp add: offer_handler_def answer_handler_def ice_candidate_handler_def
      chat_message_handler_def relay_def truthy_def get_prop_def)

theorem relay_delivers_to_partner_witness:
  "activePairs \<lparr>waitingQueue = [], activePairs = insert_pair Map.empty ''A'' ''B''\<rparr>
       (id' (Socket ''A'')) = Some ''B''
   \<and> ''B'' \<noteq> []
   \<and> JObject [(''offer'', JString ''sdp1'')] \<noteq> JUndefined
   \<and> JObject [(''offer'', JString ''sdp1'')] \<noteq> JNull
   \<and> offer_handler \<lparr>waitingQueue = [], activePairs = insert_pair Map.empty ''A'' ''B''\<rparr>
        (Socket ''A'') (JObject [(''offer'', JString ''sdp1'')])
      = (\<lparr>waitingQueue = [], activePairs = insert_pair Map.empty ''A'' ''B''\<rparr>,
         [(ToRoom ''B'', ''offer'',
            [JObject [(''offer'', JString ''sdp1''), (''from'', JString ''A'')]])], None)
   \<and> chat_message_handler \<lparr>waitingQueue = [], activePairs = insert_pair Map.empty ''A'' ''B''\<rparr>
        (Socket ''A'') (JObject [(''message'', JString ''hi'')]) 1700000000000
      = (\<lparr>waitingQueue = [], activePairs = insert_pair Map.empty ''A'' ''B''\<rparr>,
         [(ToRoom ''B'', ''chat-message'',
            [JObject [(''message'', JString ''hi''), (''from'', JString ''Stranger''),
                      (''timestamp'', JNumber 1700000000000)]])], None)"
proof -
  let ?s = "\<lparr>waitingQueue = [], activePairs = insert_pair Map.empty ''A'' ''B''\<rparr>"
  have p: "activePairs ?s (id' (Socket ''A'')) = Some ''B''"
    by (simp add: insert_pair_def)
  have n: "''B'' \<noteq> []" by simp
  have d1: "JObject [(''offer'', JString ''sdp1'')] \<noteq> JUndefined"
    "JObject [(''offer'', JString ''sdp1'')] \<noteq> JNull" by simp_all
  have d2: "JObject [(''message'', JString ''hi'')] \<noteq> JUndefined"
    "JObject [(''message'', JString ''hi'')] \<noteq> JNull" by simp_all
  from relay_delivers_to_partner [OF p n d1] relay_delivers_to_partner [OF p n d2, of 1700000000000]
    p
  show ?thesis by (simp add: prop_value_def)
qed

text \<open>
  C6. A sender with no entry in the table: each of the four relay handlers emits nothing,
  raises no error and returns the state as it was, for every payload, \<open>undefined\<close> and
  \<open>null\<close> included.
\<close>

theorem relay_unpaired_dropped:
  assumes "activePairs s (id' sock) = None"
  shows "offer_handler s sock d = (s, [], None)
    \<and> answer_handler s sock d = (s, [], None)
    \<and> ice_candidate_handler s sock d = (s, [], None)
    \<and> chat_message_handler s sock d now = (s, [], None)"
  using assms
  by (simp add: offer_handler_def answer_handler_def ice_candidate_handler_def
      chat_message_handler_def relay_def truthy_def)

theorem relay_unpaired_dropped_witness:
  "activePairs init (id' (Socket ''A'')) = None
   \<and> chat_message_handler init (Socket ''A'') (JObject [(''message'', JString ''hi'')]) 5
      = (init, [], None)
   \<and> offer_handler init (Socket ''A'') JUndefined = (init, [], None)"
proof -
  have p: "activePairs init (id' (Socket ''A'')) = None" by (simp add: init_def)
  from relay_unpaired_dropped [OF p, of "JObject [(''message'', JString ''hi'')]" 5]
    relay_unpaired_dropped [OF p, of JUndefined] p
  show ?thesis by simp
qed

text \<open>
  C7. On any table and for any two identifiers: after the two \<open>set\<close> calls for \<open>a\<close> and
  \<open>b\<close>, removing \<open>a\<close> reads the partner \<open>b\<close> and deletes the entries of \<open>a\<close> and of
  \<open>b\<close>; removing \<open>b\<close> next finds no entry, reads no partner and leaves the table as
  it is.
\<close>

theorem pair_table_round_trip:
  "fst (remove_pair (insert_pair m a b) a) = Some b
   \<and> snd (remove_pair (insert_pair m a b) a) = ((insert_pair m a b)(a := None))(b := None)
   \<and> snd (remove_pair (insert_pair m a b) a) a = None
   \<and> snd (remove_pair (insert_pair m a b) a) b = None
   \<and> remove_pair (snd (remove_pair (insert_pair m a b) a)) b
       = (None, snd (remove_pair (insert_pair m a b) a))"
  by (simp add: remove_pair_def insert_pair_def)

theorem pair_table_round_trip_witness:
  "fst (remove_pair (insert_pair Map.empty ''A'' ''B'') ''A'') = Some ''B''
   \<and> snd (remove_pair (insert_pair Map.empty ''A'' ''B'') ''A'') = Map.empty
   \<and> remove_pair (snd (remove_pair (insert_pair Map.empty ''A'' ''B'') ''A'')) ''B''
       = (None, Map.empty)"
proof -
  have e: "((insert_pair Map.empty ''A'' ''B'')(''A'' := None))(''B'' := None) = Map.empty"
    by (simp add: insert_pair_def)
  from pair_table_round_trip [of Map.empty "''A''" "''B''"] show ?thesis
    by (elim conjE) (simp add: e)
qed

text \<open>
  C8. removeUser for an identifier with the table entry \<open>partnerId\<close>: the identifier
  leaves the queue, both its entry and the partner's entry are deleted, and the partner
  gets one \<open>partner-disconnected\<close> event when \<open>io.sockets.sockets\<close> still holds a socket
  for the partner's identifier; otherwise nothing is emitted. Afterwards neither the
  identifier nor the former partner has an entry.
\<close>

theorem removeUser_notifies_partner:
  assumes "activePairs s socketId = Some partnerId"
  shows "removeUser io s socketId
      = (s\<lparr>waitingQueue := filter (\<lambda>user. id' user \<noteq> socketId) (waitingQueue s),
            activePairs := ((activePairs s)(socketId := None))(partnerId := None)\<rparr>,
         (case io partnerId of
            Some partnerSocket \<Rightarrow> [(ToSocket partnerSocket, ''partner-disconnected'', [])]
          | None \<Rightarrow> []))
    \<and> activePairs (fst (removeUser io s socketId)) socketId = None
    \<and> activePairs (fst (removeUser io s socketId)) partnerId = None"
  using assms by (simp add: removeUser_def remove_pair_def)

theorem removeUser_notifies_partner_witness:
  "activePairs \<lparr>waitingQueue = [], activePairs = insert_pair Map.empty ''A'' ''B''\<rparr> ''B''
     = Some ''A''
   \<and> removeUser (Map.empty(''A'' \<mapsto> Socket ''A''))
        \<lparr>waitingQueue = [], activePairs = insert_pair Map.empty ''A'' ''B''\<rparr> ''B''
      = (\<lparr>waitingQueue = [], activePairs = Map.empty\<rparr>,
         [(ToSocket (Socket ''A''), ''partner-disconnected'', [])])
   \<and> removeUser Map.empty
        \<lparr>waitingQueue = [], activePairs = insert_pair Map.empty ''A'' ''B''\<rparr> ''B''
      = (\<lparr>waitingQueue = [], activePairs = Map.empty\<rparr>, [])"
proof -
  let ?s = "\<lparr>waitingQueue = [], activePairs = insert_pair Map.empty ''A'' ''B''\<rparr>"
  have p: "activePairs ?s ''B'' = Some ''A''" by (simp add: insert_pair_def)
  have e: "((insert_pair Map.empty ''A'' ''B'')(''B'' := None))(''A'' := None) = Map.empty"
    by (simp add: insert_pair_def)
  from removeUser_notifies_partner [OF p, of "Map.empty(''A'' \<mapsto> Socket ''A'')"]
    removeUser_notifies_partner [OF p, of Map.empty] p e
  show ?thesis by simp
qed

text \<open>
  C9. The next handler returns the same state, the same emitted events and the same
  outcome as the start-search handler, for every table of connected sockets, state and
  socket: removeUser for the socket's identifier, the socket appended to the queue, the
  \<open>searching\<close> event to the socket, then pairUsers.
\<close>

theorem next_equals_start_search:
  "next_handler io s sock = start_search_handler io s sock
   \<and> next_handler io s sock
     = (fst (pairUsers ((fst (removeUser io s (id' sock)))
              \<lparr>waitingQueue := waitingQueue (fst (removeUser io s (id' sock))) @ [sock]\<rparr>)),
        snd (removeUser io s (id' sock))
          @ [(ToSocket sock, ''searching'', [])]
          @ snd (pairUsers ((fst (removeUser io s (id' sock)))
              \<lparr>waitingQueue := waitingQueue (fst (removeUser io s (id' sock))) @ [sock]\<rparr>)),
        None)"
  by (simp add: next_handler_def start_search_handler_def Let_def)

theorem next_equals_start_search_witness:
  "next_handler (Map.empty(''B'' \<mapsto> Socket ''B''))
      \<lparr>waitingQueue = [Socket ''C''], activePairs = insert_pair Map.empty ''A'' ''B''\<rparr>
      (Socket ''A'')
    = start_search_handler (Map.empty(''B'' \<mapsto> Socket ''B''))
      \<lparr>waitingQueue = [Socket ''C''], activePairs = insert_pair Map.empty ''A'' ''B''\<rparr>
      (Socket ''A'')
   \<and> next_handler (Map.empty(''B'' \<mapsto> Socket ''B''))
      \<lparr>waitingQueue = [Socket ''C''], activePairs = insert_pair Map.empty ''A'' ''B''\<rparr>
      (Socket ''A'')
    = (\<lparr>waitingQueue = [], activePairs = insert_pair Map.empty ''C'' ''A''\<rparr>,
       [(ToSocket (Socket ''B''), ''partner-disconnected'', []),
        (ToSocket (Socket ''A''), ''searching'', []),
        (ToSocket (Socket ''C''), ''paired'', [JObject [(''partnerId'', JString ''A'')]]),
        (ToSocket (Socket ''A''), ''paired'', [JObject [(''partnerId'', JString ''C'')]])],
       None)"
proof -
  let ?io = "Map.empty(''B'' \<mapsto> Socket ''B'')"
  let ?s = "\<lparr>waitingQueue = [Socket ''C''], activePairs = insert_pair Map.empty ''A'' ''B''\<rparr>"
  have r: "removeUser ?io ?s ''A''
      = (\<lparr>waitingQueue = [Socket ''C''], activePairs = Map.empty\<rparr>,
         [(ToSocket (Socket ''B''), ''partner-disconnected'', [])])"
    by (simp add: removeUser_def remove_pair_def insert_pair_def)
  have p: "pairUsers \<lparr>waitingQueue = [Socket ''C'', Socket ''A''], activePairs = Map.empty\<rparr>
      = (\<lparr>waitingQueue = [], activePairs = insert_pair Map.empty ''C'' ''A''\<rparr>,
         [(ToSocket (Socket ''C''), ''paired'', [JObject [(''partnerId'', JString ''A'')]]),
          (ToSocket (Socket ''A''), ''paired'', [JObject [(''partnerId'', JString ''C'')]])])"
    by (simp add: pairUsers.simps)
  from next_equals_start_search [of ?io ?s "Socket ''A''"] show ?thesis
    by (elim conjE) (simp add: r p)
qed

text \<open>
  C10. Each of the four relay handlers returns the state it was given, waiting queue and
  table alike, for every state, sender and payload: paired or not, and also where reading
  the payload raises the TypeError.
\<close>

theorem relay_frame:
  "fst (offer_handler s sock d) = s
   \<and> fst (answer_handler s sock d) = s
   \<and> fst (ice_candidate_handler s sock d) = s
   \<and> fst (chat_message_handler s sock d now) = s"
  by (simp add: offer_handler_def answer_handler_def ice_candidate_handler_def
      relay_state chat_state)

theorem relay_frame_witness:
  "fst (offer_handler \<lparr>waitingQueue = [Socket ''C''], activePairs = insert_pair Map.empty ''A'' ''B''\<rparr>
      (Socket ''A'') (JObject [(''offer'', JString ''sdp1'')]))
     = \<lparr>waitingQueue = [Socket ''C''], activePairs = insert_pair Map.empty ''A'' ''B''\<rparr>
   \<and> fst (chat_message_handler \<lparr>waitingQueue = [Socket ''C''], activePairs = insert_pair Map.empty ''A'' ''B''\<rparr>
      (Socket ''C'') JUndefined 7)
     = \<lparr>waitingQueue = [Socket ''C''], activePairs = insert_pair Map.empty ''A'' ''B''\<rparr>"
  using relay_frame [of "\<lparr>waitingQueue = [Socket ''C''], activePairs = insert_pair Map.empty ''A'' ''B''\<rparr>"
      "Socket ''A''" "JObject [(''offer'', JString ''sdp1'')]"]
    relay_frame [of "\<lparr>waitingQueue = [Socket ''C''], activePairs = insert_pair Map.empty ''A'' ''B''\<rparr>"
      "Socket ''C''" JUndefined 7]
  by simp

end
